theory Spec2Isabelle
  imports Main
begin

section \<open>Strings of the host language\<close>

text \<open>
  A JavaScript string is modelled as a \<open>string\<close>: a list of characters, one per code unit.
  The backslash cannot be written inside a string literal, so it gets a name.
\<close>

abbreviation backslash :: char where
  "backslash \<equiv> CHR 0x5C"

abbreviation star :: char where
  "star \<equiv> CHR ''*''"

section \<open>The three replacement passes of \<open>compilePattern\<close> (src/index.js, lines 48 to 51)\<close>

text \<open>
  The character class of the first pass, \<^verbatim>\<open>/[|\\{}()[\]^$+*?.]/g\<close>: the fourteen characters
  \<^verbatim>\<open>| \ { } ( ) [ ] ^ $ + * ? .\<close>
\<close>

definition special :: "char \<Rightarrow> bool" where
  "special c = (c \<in> set (backslash # ''|{}()[]^$+*?.''))"

text \<open>
  \<^verbatim>\<open>.replace(/[|\\{}()[\]^$+*?.]/g, '\\$&')\<close>: every character of the class is replaced by
  a backslash followed by itself (\<^verbatim>\<open>$&\<close> is the matched text).
\<close>

definition escape_special :: "string \<Rightarrow> string" where
  "escape_special s = concat (map (\<lambda>c. if special c then [backslash, c] else [c]) s)"

text \<open>
  \<^verbatim>\<open>.replace(/\*\*/g, '.*')\<close>: the occurrences of two adjacent asterisks, found from left to
  right without overlap, are replaced by \<^verbatim>\<open>.*\<close>
\<close>

fun replace_double_star :: "string \<Rightarrow> string" where
  "replace_double_star [] = []"
| "replace_double_star [c] = [c]"
| "replace_double_star (c # d # cs) =
     (if c = star \<and> d = star then ''.*'' @ replace_double_star cs
      else c # replace_double_star (d # cs))"

text \<open>\<^verbatim>\<open>.replace(/\*/g, '[^/]*')\<close>: every asterisk is replaced by \<^verbatim>\<open>[^/]*\<close>\<close>

definition replace_star :: "string \<Rightarrow> string" where
  "replace_star s = concat (map (\<lambda>c. if c = star then ''[^/]*'' else [c]) s)"

text \<open>The constant \<^verbatim>\<open>escaped\<close> of \<open>compilePattern\<close>: the three passes in the source's order.\<close>

definition escaped :: "string \<Rightarrow> string" where
  "escaped pattern = replace_star (replace_double_star (escape_special pattern))"

section \<open>Regular expressions of the host language\<close>

text \<open>
  \<^verbatim>\<open>new RegExp(source)\<close> and \<^verbatim>\<open>RegExp.prototype.test\<close> belong to the JavaScript runtime, not to
  the repository. They are modelled after ECMA-262 (with Annex B, no \<^verbatim>\<open>u\<close> or \<^verbatim>\<open>v\<close> flag):

  \<^item> a RegExp object carries its matcher (the internal slot \<^verbatim>\<open>RegExpMatcher\<close>: from an input
    and a start index to the end index of the match found there, or failure), the flags
    \<^verbatim>\<open>g\<close> and \<^verbatim>\<open>y\<close>, and the mutable property \<^verbatim>\<open>lastIndex\<close>;
  \<^item> a caller-supplied RegExp is any such object: its matcher is arbitrary;
  \<^item> the constructor is modelled on the fragment of the pattern syntax that \<open>compilePattern\<close>
    can produce: pattern characters, the dot, the assertions \<^verbatim>\<open>^\<close> and \<^verbatim>\<open>$\<close>, a backslash
    before a syntax character, a closing bracket outside a class (a literal in Annex B) and
    the greedy quantifier \<^verbatim>\<open>*\<close> on a single character. On any other source text the model
    of the constructor gives \<open>None\<close>.
\<close>

datatype token = TChar char | TDot | TBol | TEol | TStar

text \<open>The syntax characters of ECMA-262: \<^verbatim>\<open>^ $ \ . * + ? ( ) [ ] { } |\<close>\<close>

definition syntax_character :: "char \<Rightarrow> bool" where
  "syntax_character c = (c \<in> set (backslash # ''^$.*+?()[]{}|''))"

text \<open>Characters whose unescaped meaning lies outside the modelled fragment.\<close>

definition outside_fragment :: "char \<Rightarrow> bool" where
  "outside_fragment c = (c \<in> set ''+?()[{}|'')"

definition token_of :: "char \<Rightarrow> token" where
  "token_of c =
     (if c = CHR ''.'' then TDot
      else if c = CHR ''^'' then TBol
      else if c = CHR ''$'' then TEol
      else if c = star then TStar
      else TChar c)"

fun tokens :: "string \<Rightarrow> token list option" where
  "tokens [] = Some []"
| "tokens (c # cs) =
     (if c = backslash then
        (case cs of
           [] \<Rightarrow> None
         | d # ds \<Rightarrow>
             if syntax_character d then map_option ((#) (TChar d)) (tokens ds) else None)
      else if outside_fragment c then None
      else map_option ((#) (token_of c)) (tokens cs))"

datatype node = Chr char | Dot | Bol | Eol | Star node

text \<open>
  A quantifier needs an atom before it: at the start of a term, after an assertion or after
  another quantifier it is a syntax error.
\<close>

fun terms :: "token list \<Rightarrow> node list option" where
  "terms [] = Some []"
| "terms (TStar # ts) = None"
| "terms (TBol # ts) = map_option ((#) Bol) (terms ts)"
| "terms (TEol # ts) = map_option ((#) Eol) (terms ts)"
| "terms (TChar c # TStar # ts) = map_option ((#) (Star (Chr c))) (terms ts)"
| "terms (TChar c # ts) = map_option ((#) (Chr c)) (terms ts)"
| "terms (TDot # TStar # ts) = map_option ((#) (Star Dot)) (terms ts)"
| "terms (TDot # ts) = map_option ((#) Dot) (terms ts)"

subsection \<open>Matching\<close>

text \<open>
  The matcher of ECMA-262 backtracks through continuations. For a pattern without captures
  and lookaround this is the list of the end indices a term can reach from a start index, in
  the order in which backtracking tries them; the match found is the first one.

  A greedy \<^verbatim>\<open>*\<close> first tries one more iteration and then the rest of the pattern; an
  iteration that consumes nothing is rejected (RepeatMatcher, the empty check). Every
  accepted iteration moves forward, so the length of the input bounds their number.
\<close>

definition line_terminator :: "char \<Rightarrow> bool" where
  "line_terminator c = (c = CHR 0x0A \<or> c = CHR 0x0D)"

primrec repeat_ends :: "nat \<Rightarrow> (nat \<Rightarrow> nat list) \<Rightarrow> nat \<Rightarrow> nat list" where
  "repeat_ends 0 f i = [i]"
| "repeat_ends (Suc n) f i = concat (map (repeat_ends n f) (filter (\<lambda>j. j \<noteq> i) (f i))) @ [i]"

primrec node_ends :: "node \<Rightarrow> string \<Rightarrow> nat \<Rightarrow> nat list" where
  "node_ends (Chr c) s i = (if i < length s \<and> s ! i = c then [Suc i] else [])"
| "node_ends Dot s i = (if i < length s \<and> \<not> line_terminator (s ! i) then [Suc i] else [])"
| "node_ends Bol s i = (if i = 0 then [i] else [])"
| "node_ends Eol s i = (if i = length s then [i] else [])"
| "node_ends (Star a) s i = repeat_ends (length s) (node_ends a s) i"

primrec seq_ends :: "node list \<Rightarrow> string \<Rightarrow> nat \<Rightarrow> nat list" where
  "seq_ends [] s i = [i]"
| "seq_ends (n # ns) s i = concat (map (seq_ends ns s) (node_ends n s i))"

definition pattern_matcher :: "node list \<Rightarrow> string \<Rightarrow> nat \<Rightarrow> nat option" where
  "pattern_matcher ns s i = (case seq_ends ns s i of [] \<Rightarrow> None | e # _ \<Rightarrow> Some e)"

subsection \<open>RegExp objects\<close>

record RegExp =
  matcher :: "string \<Rightarrow> nat \<Rightarrow> nat option"
  global :: bool
  sticky :: bool
  lastIndex :: nat

text \<open>
  \<^verbatim>\<open>new RegExp(source, flags)\<close> with the flags \<^verbatim>\<open>g\<close> and \<^verbatim>\<open>y\<close> given as booleans; a regular
  expression literal \<^verbatim>\<open>/source/flags\<close> creates the same object. \<open>lastIndex\<close> starts at 0.
\<close>

definition RegExp_new :: "string \<Rightarrow> bool \<Rightarrow> bool \<Rightarrow> RegExp option" where
  "RegExp_new source g y =
     (case tokens source of
        None \<Rightarrow> None
      | Some ts \<Rightarrow>
          (case terms ts of
             None \<Rightarrow> None
           | Some ns \<Rightarrow>
               Some \<lparr>matcher = pattern_matcher ns, global = g, sticky = y, lastIndex = 0\<rparr>))"

text \<open>
  The loop of RegExpBuiltinExec (ECMA-262, step 12): from \<open>lastIndex\<close> on, fail once the
  index is past the end of the input, otherwise run the matcher at the index; on failure a
  sticky expression fails at once and any other one tries the next index. The result is the
  end index of the match.
\<close>

function scan :: "(string \<Rightarrow> nat \<Rightarrow> nat option) \<Rightarrow> bool \<Rightarrow> string \<Rightarrow> nat \<Rightarrow> nat option" where
  "scan m y s i =
     (if length s < i then None
      else (case m s i of
              Some e \<Rightarrow> Some e
            | None \<Rightarrow> if y then None else scan m y s (Suc i)))"
  by pat_completeness auto
termination
  by (relation "measure (\<lambda>(m, y, s, i). Suc (length s) - i)") auto

declare scan.simps [simp del]

text \<open>
  RegExpBuiltinExec as far as \<^verbatim>\<open>test\<close> observes it: without \<^verbatim>\<open>g\<close> and \<^verbatim>\<open>y\<close> the search
  starts at 0 and \<open>lastIndex\<close> is left alone; with one of them it starts at \<open>lastIndex\<close>,
  which is then set to the end of the match, or to 0 when there is none.
\<close>

definition RegExp_exec :: "RegExp \<Rightarrow> string \<Rightarrow> bool \<times> RegExp" where
  "RegExp_exec r s =
     (let stateful = (global r \<or> sticky r);
          start = (if stateful then lastIndex r else 0)
      in case scan (matcher r) (sticky r) s start of
           None \<Rightarrow> (False, if stateful then r\<lparr>lastIndex := 0\<rparr> else r)
         | Some e \<Rightarrow> (True, if stateful then r\<lparr>lastIndex := e\<rparr> else r))"

text \<open>
  What it means for a path to match a pattern, whatever happened to the RegExp object
  before: the answer of \<^verbatim>\<open>test\<close> on the expression with \<open>lastIndex\<close> at 0, as it is created.
\<close>

definition RegExp_matches :: "RegExp \<Rightarrow> string \<Rightarrow> bool" where
  "RegExp_matches r s = fst (RegExp_exec (r\<lparr>lastIndex := 0\<rparr>) s)"

subsection \<open>The store of RegExp objects\<close>

text \<open>
  RegExp objects are mutable and passed by reference: the caller's options, the arrays
  \<^verbatim>\<open>compiledInclude\<close> and \<^verbatim>\<open>compiledExclude\<close> and the caller's own variables may all hold the
  same object. The store lists the objects; a reference is an index into it, and a new
  object is appended.
\<close>

type_synonym ref = nat
type_synonym store = "RegExp list"

definition RegExp_test :: "ref \<Rightarrow> string \<Rightarrow> store \<Rightarrow> bool \<times> store" where
  "RegExp_test a s h = (let (b, r) = RegExp_exec (h ! a) s in (b, h[a := r]))"

section \<open>The path filter (src/index.js, lines 10 to 67)\<close>

datatype pattern = PRegExp ref | PString string

text \<open>The argument of \<open>handlePath\<close>: \<^verbatim>\<open>RegExp|string|(RegExp|string)[]|null|undefined\<close>\<close>

datatype path_arg = Undefined | Null | Single pattern | Array "pattern list"

text \<open>
  \<open>compilePattern\<close>: a RegExp is returned as it is (the same object); a string goes through
  the three passes and \<^verbatim>\<open>new RegExp(`^${escaped}$`)\<close>
\<close>

definition compilePattern :: "pattern \<Rightarrow> store \<Rightarrow> (ref \<times> store) option" where
  "compilePattern p h =
     (case p of
        PRegExp a \<Rightarrow> Some (a, h)
      | PString pat \<Rightarrow>
          (case RegExp_new (''^'' @ escaped pat @ ''$'') False False of
             None \<Rightarrow> None
           | Some r \<Rightarrow> Some (length h, h @ [r])))"

text \<open>\<^verbatim>\<open>pathArr.map(pattern => compilePattern(pattern))\<close>, from left to right.\<close>

fun compile_all :: "pattern list \<Rightarrow> store \<Rightarrow> (ref list \<times> store) option" where
  "compile_all [] h = Some ([], h)"
| "compile_all (p # ps) h =
     (case compilePattern p h of
        None \<Rightarrow> None
      | Some (a, h') \<Rightarrow>
          (case compile_all ps h' of
             None \<Rightarrow> None
           | Some (as, h'') \<Rightarrow> Some (a # as, h'')))"

definition handlePath :: "path_arg \<Rightarrow> store \<Rightarrow> (ref list \<times> store) option" where
  "handlePath path h =
     (case path of
        Undefined \<Rightarrow> Some ([], h)
      | Null \<Rightarrow> Some ([], h)
      | Single p \<Rightarrow> compile_all [p] h
      | Array ps \<Rightarrow> compile_all ps h)"

text \<open>The closure returned by \<open>createFilter\<close> captures the two compiled arrays.\<close>

record path_filter =
  compiledInclude :: "ref list"
  compiledExclude :: "ref list"

definition createFilter :: "path_arg \<Rightarrow> path_arg \<Rightarrow> store \<Rightarrow> (path_filter \<times> store) option" where
  "createFilter incl excl h =
     (case handlePath incl h of
        None \<Rightarrow> None
      | Some (ci, h') \<Rightarrow>
          (case handlePath excl h' of
             None \<Rightarrow> None
           | Some (ce, h'') \<Rightarrow> Some (\<lparr>compiledInclude = ci, compiledExclude = ce\<rparr>, h'')))"

text \<open>
  \<^verbatim>\<open>array.some(regex => regex.test(id))\<close>: the expressions are tested in order and the first
  success ends the search.
\<close>

fun some_test :: "ref list \<Rightarrow> string \<Rightarrow> store \<Rightarrow> bool \<times> store" where
  "some_test [] s h = (False, h)"
| "some_test (a # as) s h =
     (let (b, h') = RegExp_test a s h in if b then (True, h') else some_test as s h')"

definition filter_id :: "path_filter \<Rightarrow> string \<Rightarrow> store \<Rightarrow> bool \<times> store" where
  "filter_id f ident h =
     (let (excluded, h') = some_test (compiledExclude f) ident h
      in if excluded then (False, h')
         else if length (compiledInclude f) = 0 then (True, h')
         else some_test (compiledInclude f) ident h')"

section \<open>The transform hook (src/index.js, lines 118 to 185)\<close>

subsection \<open>Values\<close>

text \<open>
  A thrown value is an Error object; the string is its \<^verbatim>\<open>message\<close>. Values thrown without
  a message are outside the model.
\<close>

datatype thrown = Error string

fun message :: "thrown \<Rightarrow> string" where
  "message (Error m) = m"

text \<open>
  A lint result of the engine. The plugin reads \<^verbatim>\<open>errorCount\<close> and \<^verbatim>\<open>warningCount\<close>, which
  are counts, and hands the results on as they are. A loaded formatter renders a list of
  results as a string, or throws.
\<close>

record LintResult =
  errorCount :: nat
  warningCount :: nat

type_synonym formatter = "LintResult list \<Rightarrow> thrown + string"

text \<open>The option \<^verbatim>\<open>formatter\<close>: a name or a function; it is only passed to \<^verbatim>\<open>loadFormatter\<close>\<close>

datatype formatter_option = Name string | Function formatter

text \<open>
  The engine, an external collaborator. Each of its asynchronous methods either resolves
  to a value or rejects with an error.
\<close>

record ESLint =
  isPathIgnored :: "string \<Rightarrow> thrown + bool"
  lintText :: "string \<Rightarrow> string \<Rightarrow> thrown + LintResult list"
  loadFormatter :: "formatter_option \<Rightarrow> thrown + formatter"

text \<open>
  What the hook takes from its environment: \<^verbatim>\<open>process.cwd()\<close>, \<^verbatim>\<open>path.relative\<close> and the
  static method \<^verbatim>\<open>ESLint.outputFixes\<close>
\<close>

record host =
  cwd :: string
  relative :: "string \<Rightarrow> string \<Rightarrow> string"
  outputFixes :: "LintResult list \<Rightarrow> thrown + unit"

text \<open>
  The options the hook reads (\<^verbatim>\<open>fix\<close> is written \<open>fix_flag\<close>). \<^verbatim>\<open>include\<close> and
  \<^verbatim>\<open>exclude\<close> are consumed by \<open>createFilter\<close> when the plugin is created.
\<close>

record options =
  fix_flag :: bool
  throwOnError :: bool
  throwOnWarning :: bool
  formatter :: formatter_option

text \<open>
  The state the hook closes over. \<^verbatim>\<open>configResolved\<close> runs before any transform and
  rethrows when the engine's constructor fails, so the hook finds the engine initialised.
\<close>

record plugin =
  pluginOptions :: options
  path_filter :: path_filter
  eslint :: ESLint

text \<open>What a transform cycle does to the outside, in order.\<close>

datatype event =
    CallIsPathIgnored string
  | CallLintText string string
  | CallOutputFixes "LintResult list"
  | CallLoadFormatter formatter_option
  | CallFormat "LintResult list"
  | ConsoleLog string
  | ConsoleError string thrown

text \<open>The hook returns \<^verbatim>\<open>null\<close> or throws.\<close>

datatype outcome = Returned | Threw thrown

subsection \<open>Strings\<close>

text \<open>A count in a template literal: the decimal digits of a non-negative integer.\<close>

definition digit_char :: "nat \<Rightarrow> char" where
  "digit_char d = ''0123456789'' ! d"

function number_to_string :: "nat \<Rightarrow> string" where
  "number_to_string n =
     (if n < 10 then [digit_char n] else number_to_string (n div 10) @ [digit_char (n mod 10)])"
  by pat_completeness auto
termination
  by (relation "measure id") auto

declare number_to_string.simps [simp del]

text \<open>\<^verbatim>\<open>Array.prototype.join\<close>\<close>

fun join :: "string \<Rightarrow> string list \<Rightarrow> string" where
  "join sep [] = []"
| "join sep [x] = x"
| "join sep (x # y # ys) = x @ sep @ join sep (y # ys)"

text \<open>\<^verbatim>\<open>String.prototype.includes\<close>\<close>

fun starts_with :: "string \<Rightarrow> string \<Rightarrow> bool" where
  "starts_with s [] = True"
| "starts_with [] (c # cs) = False"
| "starts_with (d # ds) (c # cs) = (d = c \<and> starts_with ds cs)"

fun string_includes :: "string \<Rightarrow> string \<Rightarrow> bool" where
  "string_includes [] sub = starts_with [] sub"
| "string_includes (c # cs) sub = (starts_with (c # cs) sub \<or> string_includes cs sub)"

subsection \<open>The body of the \<^verbatim>\<open>try\<close> block\<close>

text \<open>
  A computation inside the \<^verbatim>\<open>try\<close> block gives the events it caused and either the error it
  threw or its value. \<open>and_then\<close> runs the second computation only when the first one did not
  throw.
\<close>

type_synonym 'a comp = "event list \<times> (thrown + 'a)"

definition and_then :: "'a comp \<Rightarrow> ('a \<Rightarrow> 'b comp) \<Rightarrow> 'b comp" where
  "and_then m f =
     (case m of
        (ev, Inl e) \<Rightarrow> (ev, Inl e)
      | (ev, Inr x) \<Rightarrow> (case f x of (ev', r) \<Rightarrow> (ev @ ev', r)))"

definition call :: "event \<Rightarrow> thrown + 'a \<Rightarrow> 'a comp" where
  "call ev r = ([ev], r)"

definition done_with :: "'a \<Rightarrow> 'a comp" where
  "done_with x = ([], Inr x)"

definition throw :: "thrown \<Rightarrow> 'a comp" where
  "throw e = ([], Inl e)"

text \<open>Lines 153 to 156: the decision to abort, taken on \<^verbatim>\<open>results[0]\<close>\<close>

definition hasErrors :: "LintResult \<Rightarrow> bool" where
  "hasErrors result = (errorCount result > 0)"

definition hasWarnings :: "LintResult \<Rightarrow> bool" where
  "hasWarnings result = (warningCount result > 0)"

definition should_abort :: "options \<Rightarrow> LintResult \<Rightarrow> bool" where
  "should_abort opts result =
     ((hasErrors result \<and> throwOnError opts) \<or> (hasWarnings result \<and> throwOnWarning opts))"

text \<open>Lines 157 to 169: the message of the error thrown on a lint finding.\<close>

definition errors_part :: "LintResult \<Rightarrow> string" where
  "errors_part result =
     (if hasErrors result
      then number_to_string (errorCount result) @ '' error'' @
           (if errorCount result > 1 then ''s'' else [])
      else [])"

definition warnings_part :: "LintResult \<Rightarrow> string" where
  "warnings_part result =
     (if hasWarnings result
      then number_to_string (warningCount result) @ '' warning'' @
           (if warningCount result > 1 then ''s'' else [])
      else [])"

definition messageParts :: "LintResult \<Rightarrow> string list" where
  "messageParts result =
     (if errors_part result \<noteq> [] then [errors_part result] else []) @
     (if warnings_part result \<noteq> [] then [warnings_part result] else [])"

definition abort_error :: "host \<Rightarrow> string \<Rightarrow> LintResult \<Rightarrow> thrown" where
  "abort_error hst ident result =
     Error (''ESLint validation failed for '' @ relative hst (cwd hst) ident @ '': '' @
            join '' and '' (messageParts result))"

text \<open>Lines 140 to 171, for a non-empty list of results.\<close>

definition report :: "options \<Rightarrow> host \<Rightarrow> ESLint \<Rightarrow> string \<Rightarrow> LintResult list \<Rightarrow> unit comp" where
  "report opts hst engine ident results =
     (case results of
        [] \<Rightarrow> done_with ()
      | result # _ \<Rightarrow>
          and_then (call (CallLoadFormatter (formatter opts)) (loadFormatter engine (formatter opts)))
            (\<lambda>fmt. and_then (call (CallFormat results) (fmt results))
              (\<lambda>output. and_then (if output \<noteq> [] then call (ConsoleLog output) (Inr ()) else done_with ())
                (\<lambda>_. if should_abort opts result
                      then throw (abort_error hst ident result)
                      else done_with ()))))"

text \<open>Lines 125 to 171.\<close>

definition try_block :: "options \<Rightarrow> host \<Rightarrow> ESLint \<Rightarrow> string \<Rightarrow> string \<Rightarrow> unit comp" where
  "try_block opts hst engine code ident =
     and_then (call (CallIsPathIgnored ident) (isPathIgnored engine ident))
       (\<lambda>isIgnored.
          if isIgnored then done_with ()
          else and_then (call (CallLintText code ident) (lintText engine code ident))
            (\<lambda>results.
               and_then (if fix_flag opts \<and> length results > 0
                         then call (CallOutputFixes results) (outputFixes hst results)
                         else done_with ())
                 (\<lambda>_. report opts hst engine ident results)))"

text \<open>Lines 172 to 182: the \<^verbatim>\<open>catch\<close> block.\<close>

definition catch_block :: "options \<Rightarrow> string \<Rightarrow> thrown \<Rightarrow> event list \<times> outcome" where
  "catch_block opts ident err =
     (if \<not> string_includes (message err) ''ESLint validation failed''
      then ([ConsoleError (''Error running ESLint on '' @ ident @ '':'') err],
            if throwOnError opts then Threw (Error (''ESLint plugin error: '' @ message err))
            else Returned)
      else ([], Threw err))"

text \<open>The hook: the events of the cycle, how it ends, and the store after the filter ran.\<close>

definition transform ::
  "plugin \<Rightarrow> host \<Rightarrow> string \<Rightarrow> string \<Rightarrow> store \<Rightarrow> (event list \<times> outcome) \<times> store" where
  "transform p hst code ident h =
     (let (pass, h') = filter_id (path_filter p) ident h
      in if \<not> pass then (([], Returned), h')
         else (case try_block (pluginOptions p) hst (eslint p) code ident of
                 (ev, Inr _) \<Rightarrow> ((ev, Returned), h')
               | (ev, Inl err) \<Rightarrow>
                   (case catch_block (pluginOptions p) ident err of
                      (ev', out) \<Rightarrow> ((ev @ ev', out), h'))))"

section \<open>Notions used in the statements\<close>

subsection \<open>The shape of a compiled string pattern\<close>

text \<open>
  What the three passes and the constructor make of a string pattern, character by
  character: an asterisk ends up as the escaped bracket \<^verbatim>\<open>\[\<close>, the assertion \<^verbatim>\<open>^\<close>, a
  slash and a starred closing bracket; any other character stands for itself.
\<close>

definition compiled_tokens :: "string \<Rightarrow> token list" where
  "compiled_tokens p =
     concat (map (\<lambda>c. if c = star
                       then [TChar CHR ''['', TBol, TChar CHR ''/'', TChar CHR '']'', TStar]
                       else [TChar c]) p)"

definition compiled_nodes :: "string \<Rightarrow> node list" where
  "compiled_nodes p =
     concat (map (\<lambda>c. if c = star
                       then [Chr CHR ''['', Bol, Chr CHR ''/'', Star (Chr CHR '']'')]
                       else [Chr c]) p)"

text \<open>The object \<open>compilePattern\<close> creates for a string (lemma \<open>compilePattern_glob\<close>).\<close>

definition glob_RegExp :: "string \<Rightarrow> RegExp" where
  "glob_RegExp p =
     \<lparr>matcher = pattern_matcher (Bol # compiled_nodes p @ [Eol]),
      global = False, sticky = False, lastIndex = 0\<rparr>"

subsection \<open>Configurations without stateful expressions\<close>

fun pattern_refs :: "pattern \<Rightarrow> ref list" where
  "pattern_refs (PRegExp a) = [a]"
| "pattern_refs (PString s) = []"

fun arg_patterns :: "path_arg \<Rightarrow> pattern list" where
  "arg_patterns Undefined = []"
| "arg_patterns Null = []"
| "arg_patterns (Single p) = [p]"
| "arg_patterns (Array ps) = ps"

text \<open>A reference to an object of the store that carries neither \<^verbatim>\<open>g\<close> nor \<^verbatim>\<open>y\<close>\<close>

definition stateless :: "store \<Rightarrow> ref \<Rightarrow> bool" where
  "stateless h a = (a < length h \<and> \<not> global (h ! a) \<and> \<not> sticky (h ! a))"

definition stateless_config :: "path_arg \<Rightarrow> path_arg \<Rightarrow> store \<Rightarrow> bool" where
  "stateless_config incl excl h =
     (\<forall>a \<in> set (concat (map pattern_refs (arg_patterns incl @ arg_patterns excl))). stateless h a)"

text \<open>The store after the filter has been called on each of the given paths in turn.\<close>

definition after_calls :: "path_filter \<Rightarrow> string list \<Rightarrow> store \<Rightarrow> store" where
  "after_calls f idents h = fold (\<lambda>ident h'. snd (filter_id f ident h')) idents h"

text \<open>
  Two stores that differ at most in the \<open>lastIndex\<close> of expressions with the flag \<^verbatim>\<open>g\<close>, reset
  to 0 in the second.
\<close>

definition same_but_lastIndex :: "store \<Rightarrow> store \<Rightarrow> bool" where
  "same_but_lastIndex h h' =
     (length h' = length h \<and>
      (\<forall>b. h' ! b = h ! b \<or> (global (h ! b) \<and> h' ! b = (h ! b)\<lparr>lastIndex := 0\<rparr>)))"

subsection \<open>Reading the result of a transform cycle\<close>

definition events_of :: "(event list \<times> outcome) \<times> store \<Rightarrow> event list" where
  "events_of t = fst (fst t)"

definition outcome_of :: "(event list \<times> outcome) \<times> store \<Rightarrow> outcome" where
  "outcome_of t = snd (fst t)"

subsection \<open>The summary of counts as the specification words it\<close>

text \<open>
  A count with its noun, in the plural unless the count is one; the summary names the
  errors, then the warnings, joined by \<^verbatim>\<open>and\<close>, and leaves out a kind whose count is zero.
\<close>

definition plural_phrase :: "nat \<Rightarrow> string \<Rightarrow> string" where
  "plural_phrase n noun = number_to_string n @ '' '' @ noun @ (if n = 1 then [] else ''s'')"

definition spec_summary :: "nat \<Rightarrow> nat \<Rightarrow> string" where
  "spec_summary e w =
     (if e > 0 \<and> w > 0 then plural_phrase e ''error'' @ '' and '' @ plural_phrase w ''warning''
      else if e > 0 then plural_phrase e ''error''
      else if w > 0 then plural_phrase w ''warning''
      else [])"

section \<open>Example objects\<close>

text \<open>The literals \<^verbatim>\<open>/node_modules/g\<close>, \<^verbatim>\<open>/\.js$/\<close> and \<^verbatim>\<open>/\.js$/g\<close>\<close>

definition node_modules_g :: RegExp where
  "node_modules_g =
     \<lparr>matcher = pattern_matcher (map Chr ''node_modules''),
      global = True, sticky = False, lastIndex = 0\<rparr>"

definition js_suffix :: "bool \<Rightarrow> RegExp" where
  "js_suffix g =
     \<lparr>matcher = pattern_matcher [Chr CHR ''.'', Chr CHR ''j'', Chr CHR ''s'', Eol],
      global = g, sticky = False, lastIndex = 0\<rparr>"

definition exclude_first :: path_filter where
  "exclude_first = \<lparr>compiledInclude = [], compiledExclude = [0]\<rparr>"

definition include_first :: path_filter where
  "include_first = \<lparr>compiledInclude = [0], compiledExclude = []\<rparr>"

definition accept_all :: path_filter where
  "accept_all = \<lparr>compiledInclude = [], compiledExclude = []\<rparr>"

text \<open>
  An engine that ignores no path, reports the given results and whose formatter renders
  them as the given text; an engine whose linting and formatter loading reject with the
  given message.
\<close>

definition example_engine :: "LintResult list \<Rightarrow> string \<Rightarrow> ESLint" where
  "example_engine results out =
     \<lparr>isPathIgnored = (\<lambda>_. Inr False),
      lintText = (\<lambda>_ _. Inr results),
      loadFormatter = (\<lambda>_. Inr (\<lambda>_. Inr out))\<rparr>"

definition failing_engine :: "string \<Rightarrow> ESLint" where
  "failing_engine msg =
     \<lparr>isPathIgnored = (\<lambda>_. Inr False),
      lintText = (\<lambda>_ _. Inl (Error msg)),
      loadFormatter = (\<lambda>_. Inl (Error msg))\<rparr>"

text \<open>
  A host with the working directory \<^verbatim>\<open>/proj\<close>; its \<open>relative\<close> is right for the paths below
  the working directory, which is all the examples use.
\<close>

definition example_host :: host where
  "example_host =
     \<lparr>cwd = ''/proj'',
      relative = (\<lambda>from to. drop (Suc (length from)) to),
      outputFixes = (\<lambda>_. Inr ())\<rparr>"

definition example_options :: "bool \<Rightarrow> bool \<Rightarrow> bool \<Rightarrow> options" where
  "example_options f e w =
     \<lparr>fix_flag = f, throwOnError = e, throwOnWarning = w, formatter = Name ''stylish''\<rparr>"

definition example_plugin :: "options \<Rightarrow> ESLint \<Rightarrow> plugin" where
  "example_plugin opts engine = \<lparr>pluginOptions = opts, path_filter = accept_all, eslint = engine\<rparr>"

definition findings :: "nat \<Rightarrow> nat \<Rightarrow> LintResult" where
  "findings e w = \<lparr>errorCount = e, warningCount = w\<rparr>"

section \<open>The pattern compiler\<close>

subsection \<open>The replacement passes\<close>

lemma escape_special_Cons:
  "escape_special (c # p) = (if special c then [backslash, c] else [c]) @ escape_special p"
  by (simp add: escape_special_def)

lemma escape_special_Nil: "escape_special [] = []"
  by (simp add: escape_special_def)

lemma hd_escape_special: "escape_special p = c # cs \<Longrightarrow> c \<noteq> star"
  by (cases p) (auto simp: escape_special_Cons escape_special_Nil special_def split: if_splits)

lemma replace_double_star_single:
  "(\<And>d ds. cs = d # ds \<Longrightarrow> d \<noteq> star) \<Longrightarrow> replace_double_star (c # cs) = c # replace_double_star cs"
  by (cases cs) auto

lemma replace_double_star_nostar:
  "c \<noteq> star \<Longrightarrow> replace_double_star (c # cs) = c # replace_double_star cs"
  by (cases cs) auto

lemma replace_double_star_escape: "replace_double_star (escape_special p) = escape_special p"
proof (induction p)
  case Nil
  show ?case by (simp add: escape_special_Nil)
next
  case (Cons c p)
  have tail: "replace_double_star (c # escape_special p) = c # escape_special p"
    using Cons.IH hd_escape_special [of p] by (simp add: replace_double_star_single)
  show ?case
  proof (cases "special c")
    case True
    then show ?thesis
      using tail by (simp add: escape_special_Cons replace_double_star_nostar)
  next
    case False
    then show ?thesis
      using tail by (simp add: escape_special_Cons)
  qed
qed

lemma escaped_Nil: "escaped [] = []"
  by (simp add: escaped_def replace_double_star_escape escape_special_Nil replace_star_def)

lemma escaped_Cons:
  "escaped (c # p) =
     (if c = star then backslash # ''[^/]*''
      else if special c then [backslash, c] else [c]) @ escaped p"
proof -
  have "escaped (c # p) = replace_star (escape_special (c # p))"
    by (simp only: escaped_def replace_double_star_escape)
  also have "\<dots> = replace_star (if special c then [backslash, c] else [c]) @ replace_star (escape_special p)"
    by (simp add: escape_special_Cons replace_star_def)
  also have "replace_star (escape_special p) = escaped p"
    by (simp only: escaped_def replace_double_star_escape)
  finally show ?thesis
    by (simp add: replace_star_def special_def)
qed

lemma special_syntax: "special c \<Longrightarrow> syntax_character c"
  by (auto simp: special_def syntax_character_def)

lemma not_special_token: "\<not> special c \<Longrightarrow> \<not> outside_fragment c \<and> token_of c = TChar c \<and> c \<noteq> backslash"
  by (auto simp: special_def outside_fragment_def token_of_def)

lemma compiled_tokens_Cons:
  "compiled_tokens (c # p) = (if c = star then [TChar CHR ''['', TBol, TChar CHR ''/'', TChar CHR '']'', TStar] else [TChar c]) @ compiled_tokens p"
  by (simp add: compiled_tokens_def)

lemma tokens_escaped:
  "tokens (escaped p @ rest) = map_option ((@) (compiled_tokens p)) (tokens rest)"
proof (induction p)
  case Nil
  show ?case by (simp add: escaped_Nil compiled_tokens_def option.map_ident)
next
  case (Cons c p)
  show ?case
  proof (cases "c = star")
    case True
    then show ?thesis
      using Cons.IH
      by (simp add: escaped_Cons compiled_tokens_Cons syntax_character_def outside_fragment_def token_of_def option.map_comp comp_def)
  next
    case False
    show ?thesis
    proof (cases "special c")
      case True
      then show ?thesis
        using Cons.IH False special_syntax [OF True]
        by (simp add: escaped_Cons compiled_tokens_Cons option.map_comp comp_def)
    next
      case ns: False
      then show ?thesis
        using Cons.IH False not_special_token [OF ns]
        by (simp add: escaped_Cons compiled_tokens_Cons option.map_comp comp_def)
    qed
  qed
qed

lemma tokens_source:
  "tokens (''^'' @ escaped p @ ''$'') = Some (TBol # compiled_tokens p @ [TEol])"
proof -
  have "tokens (escaped p @ ''$'') = Some (compiled_tokens p @ [TEol])"
    by (simp add: tokens_escaped outside_fragment_def token_of_def)
  then show ?thesis
    by (simp add: outside_fragment_def token_of_def)
qed

lemma terms_TChar:
  "(\<And>us. ts \<noteq> TStar # us) \<Longrightarrow> terms (TChar c # ts) = map_option ((#) (Chr c)) (terms ts)"
  by (cases ts rule: terms.cases) auto

lemma compiled_tokens_no_TStar: "compiled_tokens p @ [TEol] \<noteq> TStar # us"
  by (cases p) (auto simp: compiled_tokens_def)

lemma terms_compiled:
  "terms (compiled_tokens p @ [TEol]) = Some (compiled_nodes p @ [Eol])"
proof (induction p)
  case Nil
  show ?case by (simp add: compiled_tokens_def compiled_nodes_def)
next
  case (Cons c p)
  show ?case
  proof (cases "c = star")
    case True
    have "terms (TStar # compiled_tokens p @ [TEol]) = None" by simp
    show ?thesis
      using Cons.IH True compiled_tokens_no_TStar [of p]
      by (simp add: compiled_tokens_def compiled_nodes_def terms_TChar)
  next
    case False
    then show ?thesis
      using Cons.IH compiled_tokens_no_TStar [of p]
      by (simp add: compiled_tokens_def compiled_nodes_def terms_TChar)
  qed
qed

lemma RegExp_new_source:
  "RegExp_new (''^'' @ escaped p @ ''$'') False False =
     Some \<lparr>matcher = pattern_matcher (Bol # compiled_nodes p @ [Eol]), global = False, sticky = False, lastIndex = 0\<rparr>"
  using tokens_source [of p] terms_compiled [of p]
  by (simp add: RegExp_new_def)

subsection \<open>Matching a compiled pattern\<close>

lemma compiled_nodes_literal: "star \<notin> set p \<Longrightarrow> compiled_nodes p = map Chr p"
  by (induction p) (auto simp: compiled_nodes_def)

lemma compiled_nodes_append: "compiled_nodes (p @ q) = compiled_nodes p @ compiled_nodes q"
  by (simp add: compiled_nodes_def)

lemma compiled_nodes_star:
  "compiled_nodes (star # q) = Chr CHR ''['' # Bol # Chr CHR ''/'' # Star (Chr CHR '']'') # compiled_nodes q"
  by (simp add: compiled_nodes_def)

lemma seq_ends_literal:
  "seq_ends (map Chr p @ ns) s i =
     (if take (length p) (drop i s) = p then seq_ends ns s (i + length p) else [])"
proof (induction p arbitrary: i)
  case Nil
  show ?case by simp
next
  case (Cons c p)
  show ?case
  proof (cases "i < length s \<and> s ! i = c")
    case True
    then have d: "drop i s = c # drop (Suc i) s"
      by (simp add: Cons_nth_drop_Suc [symmetric])
    show ?thesis
      using True Cons.IH [of "Suc i"] by (simp add: d)
  next
    case False
    have "take (length (c # p)) (drop i s) \<noteq> c # p"
    proof
      assume eq: "take (length (c # p)) (drop i s) = c # p"
      then obtain rest where d: "drop i s = c # rest"
        by (cases "drop i s") auto
      then have "s ! i = c" by (rule nth_via_drop)
      moreover have "i < length s" using d by (cases "i < length s") auto
      ultimately show False using False by simp
    qed
    with False show ?thesis by auto
  qed
qed

lemma seq_ends_anchored_literal:
  "seq_ends (Bol # map Chr p @ [Eol]) s i = (if i = 0 \<and> s = p then [length s] else [])"
proof (cases "i = 0")
  case True
  have "(take (length p) s = p \<and> length p = length s) = (s = p)"
    by (metis take_all_iff order_refl)
  then show ?thesis
    using True by (auto simp: seq_ends_literal)
next
  case False
  then show ?thesis by simp
qed

lemma seq_ends_glob_star:
  "seq_ends (Bol # compiled_nodes (p @ star # q) @ [Eol]) s i = []"
proof -
  obtain a b where split: "p @ star # q = a @ star # b" "star \<notin> set a"
    using split_list_first [of star "p @ star # q"] by auto
  have after: "seq_ends (Chr CHR ''['' # Bol # ns) s j = []" for ns j
    by simp
  have "seq_ends (map Chr a @ Chr CHR ''['' # Bol # ns) s j = []" for ns j
    by (simp only: seq_ends_literal after if_cancel)
  then show ?thesis
    by (simp add: split compiled_nodes_append compiled_nodes_star compiled_nodes_literal)
qed

lemma scan_none: "(\<And>j. i \<le> j \<Longrightarrow> j \<le> length s \<Longrightarrow> m s j = None) \<Longrightarrow> scan m y s i = None"
proof (induction m y s i rule: scan.induct)
  case (1 m y s i)
  show ?case
  proof (cases "length s < i")
    case True
    then show ?thesis by (subst scan.simps) simp
  next
    case False
    then have here: "m s i = None" using "1.prems" by simp
    show ?thesis
    proof (cases y)
      case True
      then show ?thesis using here by (subst scan.simps) simp
    next
      case ny: False
      have "scan m y s (Suc i) = None"
        using "1.IH" [OF False here ny] "1.prems" by simp
      then show ?thesis using here ny by (subst scan.simps) simp
    qed
  qed
qed

lemma scan_here: "i \<le> length s \<Longrightarrow> m s i = Some e \<Longrightarrow> scan m y s i = Some e"
  by (subst scan.simps) simp

lemma scan_anchored_literal:
  "scan (pattern_matcher (Bol # map Chr p @ [Eol])) False s 0 = (if s = p then Some (length s) else None)"
proof (cases "s = p")
  case True
  have "pattern_matcher (Bol # map Chr p @ [Eol]) s 0 = Some (length s)"
    unfolding pattern_matcher_def seq_ends_anchored_literal using True by simp
  then show ?thesis using True by (simp add: scan_here)
next
  case False
  have "pattern_matcher (Bol # map Chr p @ [Eol]) s j = None" for j
    unfolding pattern_matcher_def seq_ends_anchored_literal using False by simp
  then show ?thesis using False by (simp add: scan_none)
qed

lemma scan_glob_star:
  "scan (pattern_matcher (Bol # compiled_nodes (p @ star # q) @ [Eol])) y s i = None"
  by (rule scan_none) (simp only: pattern_matcher_def seq_ends_glob_star list.case)

lemma compilePattern_string:
  "compilePattern (PString p) h =
     Some (length h, h @ [\<lparr>matcher = pattern_matcher (Bol # compiled_nodes p @ [Eol]),
                            global = False, sticky = False, lastIndex = 0\<rparr>])"
  using RegExp_new_source [of p] by (simp add: compilePattern_def)


lemma compilePattern_glob:
  "compilePattern (PString p) h = Some (length h, h @ [glob_RegExp p])"
  by (simp add: compilePattern_string glob_RegExp_def)

lemma compilePattern_RegExp: "compilePattern (PRegExp a) h = Some (a, h)"
  by (simp add: compilePattern_def)

lemma RegExp_test_result: "fst (RegExp_test a s h) = fst (RegExp_exec (h ! a) s)"
  by (simp add: RegExp_test_def split: prod.splits)

lemma RegExp_test_other: "b \<noteq> a \<Longrightarrow> snd (RegExp_test a s h) ! b = h ! b"
  by (simp add: RegExp_test_def split: prod.splits)

lemma glob_RegExp_exec_literal:
  "star \<notin> set p \<Longrightarrow> fst (RegExp_exec (glob_RegExp p) s) = (s = p)"
  by (simp add: RegExp_exec_def glob_RegExp_def compiled_nodes_literal scan_anchored_literal)

lemma glob_RegExp_matches_literal:
  "star \<notin> set p \<Longrightarrow> RegExp_matches (glob_RegExp p) s = (s = p)"
  by (simp add: RegExp_matches_def RegExp_exec_def glob_RegExp_def compiled_nodes_literal
      scan_anchored_literal)

text \<open>
  The second pass never finds two adjacent asterisks (\<open>replace_double_star_escape\<close>): the
  first pass has put a backslash before each. The third pass then turns every escaped
  asterisk into \<^verbatim>\<open>\[^/]*\<close>, whose \<^verbatim>\<open>^\<close> stands after a consumed bracket and cannot hold. A
  string pattern with an asterisk therefore compiles to an expression that matches nothing.
\<close>

lemma glob_with_star_matches_nothing:
  assumes "star \<in> set p"
  shows "compilePattern (PString p) h = Some (length h, h @ [glob_RegExp p]) \<and>
         \<not> fst (RegExp_test (length h) s (h @ [glob_RegExp p])) \<and>
         \<not> RegExp_matches (glob_RegExp p) s"
proof -
  obtain a b where "p = a @ star # b"
    using assms by (auto dest: split_list)
  then show ?thesis
    by (simp add: compilePattern_glob RegExp_test_result RegExp_exec_def RegExp_matches_def
        glob_RegExp_def scan_glob_star)
qed

section \<open>The claims about the pattern compiler\<close>

text \<open>
  C1. The claim: a string pattern has glob semantics, \<^verbatim>\<open>**\<close> matching across path separators
  and \<^verbatim>\<open>*\<close> within one segment; in particular \<^verbatim>\<open>src/**/*.js\<close> matches \<^verbatim>\<open>src/a/b.js\<close>. The code
  does not do this: compiled in an empty store, the pattern \<^verbatim>\<open>src/**/*.js\<close> answers false on
  the path \<^verbatim>\<open>src/a/b.js\<close>
\<close>

theorem C1_double_star_glob_rejects_path:
  "map_option (\<lambda>(a, h). fst (RegExp_test a ''src/a/b.js'' h))
     (compilePattern (PString ''src/**/*.js'') []) = Some False"
proof -
  have "''src/**/*.js'' = ''src/'' @ star # ''*/*.js''" by simp
  then have "scan (pattern_matcher (Bol # compiled_nodes ''src/**/*.js'' @ [Eol])) False ''src/a/b.js'' 0 = None"
    by (simp only: scan_glob_star)
  then show ?thesis
    by (simp only: compilePattern_string) (simp add: RegExp_test_def RegExp_exec_def)
qed

text \<open>
  C8. For a string pattern without an asterisk, the compiled expression answers true on a
  string exactly when the string is the pattern itself: the match is anchored at both ends.
\<close>

theorem C8_literal_roundtrip:
  assumes "star \<notin> set p" and "compilePattern (PString p) h = Some (a, h')"
  shows "fst (RegExp_test a s h') = (s = p)"
proof -
  from assms(2) have "a = length h" and "h' = h @ [glob_RegExp p]"
    by (simp_all add: compilePattern_glob)
  then have "h' ! a = glob_RegExp p"
    by simp
  then show ?thesis
    using assms(1) by (simp add: RegExp_test_result glob_RegExp_exec_literal)
qed

theorem C8_literal_roundtrip_witness:
  "star \<notin> set ''src/index.js'' \<and>
   compilePattern (PString ''src/index.js'') [] = Some (0, [glob_RegExp ''src/index.js'']) \<and>
   fst (RegExp_test 0 ''src/index.js'' [glob_RegExp ''src/index.js'']) \<and>
   \<not> fst (RegExp_test 0 ''src/index.jsx'' [glob_RegExp ''src/index.js'']) \<and>
   \<not> fst (RegExp_test 0 ''lib/src/index.js'' [glob_RegExp ''src/index.js''])"
  using C8_literal_roundtrip [of "''src/index.js''" "[]" 0 "[glob_RegExp ''src/index.js'']" "''src/index.js''"]
    C8_literal_roundtrip [of "''src/index.js''" "[]" 0 "[glob_RegExp ''src/index.js'']" "''src/index.jsx''"]
    C8_literal_roundtrip [of "''src/index.js''" "[]" 0 "[glob_RegExp ''src/index.js'']" "''lib/src/index.js''"]
  by (simp add: compilePattern_glob)

section \<open>The path filter\<close>

subsection \<open>Configurations without stateful expressions\<close>

lemma compilePattern_stateless:
  assumes "compilePattern p h = Some (a, h')" "\<forall>b \<in> set (pattern_refs p). stateless h b"
  shows "stateless h' a \<and> (\<forall>b. stateless h b \<longrightarrow> stateless h' b)"
proof (cases p)
  case (PRegExp b)
  then show ?thesis using assms by (simp add: compilePattern_def)
next
  case (PString s)
  then show ?thesis
    using assms(1) by (auto simp: compilePattern_string stateless_def nth_append)
qed

lemma compile_all_total: "\<exists>as h'. compile_all ps h = Some (as, h')"
proof (induction ps arbitrary: h)
  case Nil
  show ?case by simp
next
  case (Cons p ps)
  obtain a h1 where c: "compilePattern p h = Some (a, h1)"
  proof (cases p)
    case (PRegExp b)
    then show ?thesis using that by (simp add: compilePattern_def)
  next
    case (PString s)
    then show ?thesis using that by (simp only: compilePattern_string)
  qed
  obtain as h2 where "compile_all ps h1 = Some (as, h2)"
    using Cons.IH by blast
  with c show ?case by simp
qed

lemma compile_all_stateless:
  assumes "compile_all ps h = Some (as, h')" "\<forall>b \<in> set (concat (map pattern_refs ps)). stateless h b"
  shows "(\<forall>a \<in> set as. stateless h' a) \<and> (\<forall>b. stateless h b \<longrightarrow> stateless h' b)"
  using assms
proof (induction ps arbitrary: h as)
  case Nil
  then show ?case by simp
next
  case (Cons p ps)
  from Cons.prems(1) obtain a h1 bs where
    c: "compilePattern p h = Some (a, h1)" and r: "compile_all ps h1 = Some (bs, h')" and as: "as = a # bs"
    by (auto split: option.splits)
  have s1: "stateless h1 a \<and> (\<forall>b. stateless h b \<longrightarrow> stateless h1 b)"
    using compilePattern_stateless [OF c] Cons.prems(2) by simp
  have "\<forall>b \<in> set (concat (map pattern_refs ps)). stateless h1 b"
    using s1 Cons.prems(2) by simp
  from Cons.IH [OF r this] s1 as show ?case by simp
qed

lemma handlePath_compile_all: "handlePath path h = compile_all (arg_patterns path) h"
  by (cases path) (simp_all add: handlePath_def)

lemma createFilter_total: "\<exists>f h'. createFilter incl excl h = Some (f, h')"
proof -
  obtain ci h1 where i: "compile_all (arg_patterns incl) h = Some (ci, h1)"
    using compile_all_total by blast
  obtain ce h2 where "compile_all (arg_patterns excl) h1 = Some (ce, h2)"
    using compile_all_total by blast
  with i show ?thesis by (simp add: createFilter_def handlePath_compile_all)
qed

lemma createFilter_stateless:
  assumes "createFilter incl excl h0 = Some (f, h)" "stateless_config incl excl h0"
  shows "\<forall>a \<in> set (compiledInclude f @ compiledExclude f). stateless h a"
proof -
  from assms(1) obtain ci h1 ce where
    i: "compile_all (arg_patterns incl) h0 = Some (ci, h1)" and
    e: "compile_all (arg_patterns excl) h1 = Some (ce, h)" and
    f: "f = \<lparr>compiledInclude = ci, compiledExclude = ce\<rparr>"
    by (auto simp: createFilter_def handlePath_compile_all split: option.splits)
  have si: "(\<forall>a \<in> set ci. stateless h1 a) \<and> (\<forall>b. stateless h0 b \<longrightarrow> stateless h1 b)"
    using compile_all_stateless [OF i] assms(2) by (auto simp: stateless_config_def)
  have "\<forall>b \<in> set (concat (map pattern_refs (arg_patterns excl))). stateless h1 b"
    using si assms(2) by (auto simp: stateless_config_def)
  from compile_all_stateless [OF e this] si f show ?thesis by auto
qed

lemma RegExp_exec_stateless:
  "\<not> global r \<Longrightarrow> \<not> sticky r \<Longrightarrow> RegExp_exec r s = (RegExp_matches r s, r)"
  by (simp add: RegExp_exec_def RegExp_matches_def split: option.splits)

lemma RegExp_test_stateless:
  "stateless h a \<Longrightarrow> RegExp_test a s h = (RegExp_matches (h ! a) s, h)"
  by (simp add: RegExp_test_def stateless_def RegExp_exec_stateless)

lemma some_test_stateless:
  "\<forall>a \<in> set as. stateless h a \<Longrightarrow>
     some_test as s h = (\<exists>a \<in> set as. RegExp_matches (h ! a) s, h)"
  by (induction as) (auto simp: RegExp_test_stateless)

lemma filter_id_stateless:
  assumes "\<forall>a \<in> set (compiledInclude f @ compiledExclude f). stateless h a"
  shows "filter_id f ident h =
           (\<not> (\<exists>a \<in> set (compiledExclude f). RegExp_matches (h ! a) ident) \<and>
            (compiledInclude f = [] \<or> (\<exists>a \<in> set (compiledInclude f). RegExp_matches (h ! a) ident)), h)"
  using assms by (auto simp: filter_id_def some_test_stateless)

lemma after_calls_stateless:
  assumes "\<forall>a \<in> set (compiledInclude f @ compiledExclude f). stateless h a"
  shows "after_calls f idents h = h"
  using assms by (induction idents) (simp_all add: after_calls_def filter_id_stateless)

lemma createFilter_include_empty:
  assumes "createFilter incl excl h0 = Some (f, h)"
  shows "(compiledInclude f = []) = (incl = Undefined \<or> incl = Null \<or> incl = Array [])"
proof -
  from assms obtain ci h1 where
    i: "compile_all (arg_patterns incl) h0 = Some (ci, h1)" and f: "compiledInclude f = ci"
    by (auto simp: createFilter_def handlePath_compile_all split: option.splits)
  show ?thesis
  proof (cases "arg_patterns incl")
    case Nil
    then have "incl = Undefined \<or> incl = Null \<or> incl = Array []"
      by (cases incl) auto
    moreover have "ci = []" using i Nil by simp
    ultimately show ?thesis using f by simp
  next
    case (Cons p ps)
    then have "\<not> (incl = Undefined \<or> incl = Null \<or> incl = Array [])"
      by (cases incl) auto
    moreover have "ci \<noteq> []" using i Cons by (auto split: option.splits)
    ultimately show ?thesis using f by simp
  qed
qed

subsection \<open>The filter in any state\<close>

text \<open>
  Whatever the flags and whichever objects are shared: when \<^verbatim>\<open>test\<close>, run on some exclude
  expression in the store the filter is called in, answers true, the filter answers false.
\<close>

lemma some_test_Cons:
  "some_test (a # as) s h =
     (if fst (RegExp_test a s h) then (True, snd (RegExp_test a s h))
      else some_test as s (snd (RegExp_test a s h)))"
  by (simp add: case_prod_beta)

lemma some_test_answers:
  "\<exists>a \<in> set as. fst (RegExp_exec (h ! a) s) \<Longrightarrow> fst (some_test as s h)"
proof (induction as arbitrary: h)
  case Nil
  then show ?case by simp
next
  case (Cons a as)
  show ?case
  proof (cases "fst (RegExp_test a s h)")
    case True
    then show ?thesis by (simp only: some_test_Cons if_True fst_conv)
  next
    case False
    then have no: "\<not> fst (RegExp_exec (h ! a) s)"
      by (simp add: RegExp_test_result)
    with Cons.prems obtain b where b: "b \<in> set as" "fst (RegExp_exec (h ! b) s)" "b \<noteq> a"
      by auto
    then have "fst (RegExp_exec (snd (RegExp_test a s h) ! b) s)"
      by (simp add: RegExp_test_other)
    with b(1) have "fst (some_test as s (snd (RegExp_test a s h)))"
      using Cons.IH by blast
    with False show ?thesis by (simp only: some_test_Cons if_False)
  qed
qed

lemma exclude_answer_wins:
  "\<exists>a \<in> set (compiledExclude f). fst (RegExp_exec (h ! a) ident) \<Longrightarrow> \<not> fst (filter_id f ident h)"
  using some_test_answers [of "compiledExclude f" h ident]
  by (simp add: filter_id_def case_prod_beta)

subsection \<open>The example expressions\<close>

lemma node_modules_g_literal: "RegExp_new ''node_modules'' True False = Some node_modules_g"
  by (simp add: RegExp_new_def node_modules_g_def outside_fragment_def token_of_def)

lemma js_suffix_literal: "RegExp_new (backslash # ''.js$'') g False = Some (js_suffix g)"
  by (simp add: RegExp_new_def js_suffix_def outside_fragment_def token_of_def syntax_character_def)

section \<open>The claims about the path filter\<close>

text \<open>
  In these claims a path matches a pattern when \<^verbatim>\<open>test\<close> answers true on the expression as
  it is created, with \<open>lastIndex\<close> at 0 (\<open>RegExp_matches\<close>). With the flag \<^verbatim>\<open>g\<close> or \<^verbatim>\<open>y\<close> the
  filter's own call of \<^verbatim>\<open>test\<close> starts at the \<open>lastIndex\<close> an earlier call left behind; the
  filter never resets it. The comments of the filter (lines 18 and 21) promise the answer
  true for a path that matches include and does not match exclude, and the answer false
  for a path that matches any exclude pattern.
\<close>

text \<open>
  C3. The claim: if a path matches at least one compiled exclude pattern, the filter answers
  false, whatever the include patterns are. The code does not do this: with
  \<^verbatim>\<open>exclude: /node_modules/g\<close> and no include pattern, the filter rejects
  \<^verbatim>\<open>lib/node_modules/a.js\<close> and leaves \<open>lastIndex\<close> at 16; called next on \<^verbatim>\<open>node_modules/b.js\<close>,
  which matches the exclude pattern, it answers true.
\<close>

theorem C3_global_exclude_accepts_excluded_path:
  "createFilter Undefined (Single (PRegExp 0)) [node_modules_g] = Some (exclude_first, [node_modules_g]) \<and>
   filter_id exclude_first ''lib/node_modules/a.js'' [node_modules_g] =
     (False, [node_modules_g\<lparr>lastIndex := 16\<rparr>]) \<and>
   RegExp_matches (node_modules_g\<lparr>lastIndex := 16\<rparr>) ''node_modules/b.js'' \<and>
   filter_id exclude_first ''node_modules/b.js'' [node_modules_g\<lparr>lastIndex := 16\<rparr>] =
     (True, [node_modules_g])"
  by (simp add: createFilter_def handlePath_def compilePattern_def exclude_first_def
      filter_id_def RegExp_test_def RegExp_exec_def RegExp_matches_def node_modules_g_def
      scan.simps pattern_matcher_def)

text \<open>
  C4. The claim: for a path that no exclude pattern matches, the filter answers true when
  the include set is empty, and otherwise exactly when at least one include pattern matches
  the path. The code does not do this: with \<^verbatim>\<open>include: /\.js$/g\<close> and no exclude pattern, the
  filter accepts \<^verbatim>\<open>a.js\<close> and leaves \<open>lastIndex\<close> at 4; called next on \<^verbatim>\<open>b.js\<close>, which the
  include pattern matches, it answers false.
\<close>

theorem C4_global_include_rejects_included_path:
  "createFilter (Single (PRegExp 0)) Undefined [js_suffix True] = Some (include_first, [js_suffix True]) \<and>
   filter_id include_first ''a.js'' [js_suffix True] = (True, [(js_suffix True)\<lparr>lastIndex := 4\<rparr>]) \<and>
   RegExp_matches ((js_suffix True)\<lparr>lastIndex := 4\<rparr>) ''b.js'' \<and>
   filter_id include_first ''b.js'' [(js_suffix True)\<lparr>lastIndex := 4\<rparr>] = (False, [js_suffix True])"
  by (simp add: createFilter_def handlePath_def compilePattern_def include_first_def
      filter_id_def RegExp_test_def RegExp_exec_def RegExp_matches_def js_suffix_def
      scan.simps pattern_matcher_def)

text \<open>
  C9. The claim: two successive calls of the filter on the same path give the same answer,
  whatever the configuration. The code does not do this: with \<^verbatim>\<open>include: [/\.js$/g]\<close> two
  successive calls on \<^verbatim>\<open>src/main.js\<close> answer true and then false; the first call leaves
  \<open>lastIndex\<close> at 11, the end of the match, and the second one searches from there.
\<close>

theorem C9_successive_answers_differ:
  "createFilter (Array [PRegExp 0]) Null [js_suffix True] = Some (include_first, [js_suffix True]) \<and>
   filter_id include_first ''src/main.js'' [js_suffix True] =
     (True, [(js_suffix True)\<lparr>lastIndex := 11\<rparr>]) \<and>
   filter_id include_first ''src/main.js'' [(js_suffix True)\<lparr>lastIndex := 11\<rparr>] =
     (False, [js_suffix True])"
  by (simp add: createFilter_def handlePath_def compilePattern_def include_first_def
      filter_id_def RegExp_test_def RegExp_exec_def js_suffix_def scan.simps pattern_matcher_def)

section \<open>The path filter on expressions without the flags\<close>

text \<open>
  Where the three claims do hold. An exclude expression without \<^verbatim>\<open>g\<close> and \<^verbatim>\<open>y\<close> that matches
  the path makes the filter answer false, whatever the other expressions of the
  configuration are.
\<close>

lemma exclude_match_wins:
  assumes "a \<in> set (compiledExclude f)" and "stateless h a" and "RegExp_matches (h ! a) ident"
  shows "\<not> fst (filter_id f ident h)"
proof -
  have "fst (RegExp_exec (h ! a) ident)"
    using assms(2,3) by (simp add: stateless_def RegExp_exec_stateless)
  with assms(1) have "\<exists>b \<in> set (compiledExclude f). fst (RegExp_exec (h ! b) ident)"
    by blast
  then show ?thesis
    by (rule exclude_answer_wins)
qed

text \<open>
  When no caller-supplied expression carries \<^verbatim>\<open>g\<close> or \<^verbatim>\<open>y\<close>, the filter also leaves the store
  as it was.
\<close>

lemma exclude_precedence_stateless:
  assumes "stateless_config incl excl h0"
    and "createFilter incl excl h0 = Some (f, h)"
    and "\<exists>a \<in> set (compiledExclude f). RegExp_matches (h ! a) ident"
  shows "filter_id f ident h = (False, h)"
  using assms(3) by (simp add: filter_id_stateless [OF createFilter_stateless [OF assms(2,1)]])

lemma exclude_precedence_stateless_example:
  "stateless_config (Single (PRegExp 0)) (Array [PString ''src/gen.js'']) [js_suffix False] \<and>
   createFilter (Single (PRegExp 0)) (Array [PString ''src/gen.js'']) [js_suffix False] =
     Some (\<lparr>compiledInclude = [0], compiledExclude = [1]\<rparr>, [js_suffix False, glob_RegExp ''src/gen.js'']) \<and>
   RegExp_matches (glob_RegExp ''src/gen.js'') ''src/gen.js'' \<and>
   RegExp_matches (js_suffix False) ''src/gen.js'' \<and>
   filter_id \<lparr>compiledInclude = [0], compiledExclude = [1]\<rparr> ''src/gen.js''
       [js_suffix False, glob_RegExp ''src/gen.js''] =
     (False, [js_suffix False, glob_RegExp ''src/gen.js''])"
proof -
  have m: "RegExp_matches (glob_RegExp ''src/gen.js'') ''src/gen.js''"
    by (simp add: glob_RegExp_matches_literal)
  have i: "RegExp_matches (js_suffix False) ''src/gen.js''"
    by (simp add: RegExp_matches_def RegExp_exec_def js_suffix_def scan.simps pattern_matcher_def)
  have s: "stateless_config (Single (PRegExp 0)) (Array [PString ''src/gen.js'']) [js_suffix False]"
    by (simp add: stateless_config_def stateless_def js_suffix_def)
  have c: "createFilter (Single (PRegExp 0)) (Array [PString ''src/gen.js'']) [js_suffix False] =
     Some (\<lparr>compiledInclude = [0], compiledExclude = [1]\<rparr>, [js_suffix False, glob_RegExp ''src/gen.js''])"
    by (simp add: createFilter_def handlePath_def compilePattern_glob compilePattern_RegExp)
  show ?thesis
    using exclude_precedence_stateless [OF s c, of "''src/gen.js''"] m i s c by simp
qed

text \<open>
  For a path that no exclude pattern matches, the include patterns decide as claimed when
  they carry neither flag; the exclude expressions may carry \<^verbatim>\<open>g\<close>, but not \<^verbatim>\<open>y\<close>
\<close>

lemma scan_none_later:
  "scan m False s i = None \<Longrightarrow> i \<le> j \<Longrightarrow> scan m False s j = None"
proof (induction m "False" s i rule: scan.induct)
  case (1 m s i)
  show ?case
  proof (cases "i = j")
    case True
    with "1.prems" show ?thesis by simp
  next
    case False
    show ?thesis
    proof (cases "length s < i")
      case True
      then have "length s < j" using "1.prems" by simp
      then show ?thesis by (subst scan.simps) simp
    next
      case inside: False
      from "1.prems"(1) inside have here: "m s i = None" and nxt: "scan m False s (Suc i) = None"
        by (subst (asm) scan.simps, simp split: option.splits)+
      from "1.hyps" [OF inside here _ nxt] False "1.prems"(2) show ?thesis by simp
    qed
  qed
qed

lemma RegExp_matches_reset: "RegExp_matches (r\<lparr>lastIndex := 0\<rparr>) s = RegExp_matches r s"
  by (simp add: RegExp_matches_def)

lemma RegExp_exec_no_match:
  assumes "\<not> sticky r" and "\<not> RegExp_matches r s"
  shows "RegExp_exec r s = (False, if global r then r\<lparr>lastIndex := 0\<rparr> else r)"
proof -
  have "scan (matcher r) False s 0 = None"
    using assms
    by (cases "scan (matcher r) False s 0"; cases "global r")
       (auto simp: RegExp_matches_def RegExp_exec_def Let_def)
  then have "scan (matcher r) False s (lastIndex r) = None"
    by (rule scan_none_later) simp
  then show ?thesis
    using assms(1) \<open>scan (matcher r) False s 0 = None\<close> by (simp add: RegExp_exec_def)
qed

lemma same_but_lastIndex_refl: "same_but_lastIndex h h"
  by (simp add: same_but_lastIndex_def)

lemma same_but_lastIndex_trans:
  assumes "same_but_lastIndex h h'" and "same_but_lastIndex h' h''"
  shows "same_but_lastIndex h h''"
proof -
  have "h'' ! b = h ! b \<or> (global (h ! b) \<and> h'' ! b = (h ! b)\<lparr>lastIndex := 0\<rparr>)" for b
  proof -
    have "h' ! b = h ! b \<or> (global (h ! b) \<and> h' ! b = (h ! b)\<lparr>lastIndex := 0\<rparr>)"
      using assms(1) by (simp add: same_but_lastIndex_def)
    moreover have "h'' ! b = h' ! b \<or> (global (h' ! b) \<and> h'' ! b = (h' ! b)\<lparr>lastIndex := 0\<rparr>)"
      using assms(2) by (simp add: same_but_lastIndex_def)
    ultimately show ?thesis by auto
  qed
  moreover have "length h'' = length h"
    using assms by (simp add: same_but_lastIndex_def)
  ultimately show ?thesis
    by (simp add: same_but_lastIndex_def)
qed

lemma RegExp_test_no_match:
  assumes "a < length h" and "\<not> sticky (h ! a)" and "\<not> RegExp_matches (h ! a) s"
  shows "fst (RegExp_test a s h) = False \<and> same_but_lastIndex h (snd (RegExp_test a s h))"
  using assms
  by (auto simp: RegExp_test_def RegExp_exec_no_match same_but_lastIndex_def nth_list_update)

lemma same_but_lastIndex_props:
  assumes "same_but_lastIndex h h'"
  shows "stateless h b \<Longrightarrow> stateless h' b \<and> h' ! b = h ! b"
    and "b < length h \<Longrightarrow> b < length h'"
    and "sticky (h' ! b) = sticky (h ! b)"
    and "RegExp_matches (h' ! b) s = RegExp_matches (h ! b) s"
proof -
  from assms have len: "length h' = length h"
    and alt: "h' ! b = h ! b \<or> (global (h ! b) \<and> h' ! b = (h ! b)\<lparr>lastIndex := 0\<rparr>)"
    by (simp_all add: same_but_lastIndex_def)
  show "stateless h b \<Longrightarrow> stateless h' b \<and> h' ! b = h ! b"
    using len alt by (auto simp: stateless_def)
  show "b < length h \<Longrightarrow> b < length h'" using len by simp
  show "sticky (h' ! b) = sticky (h ! b)" using alt by auto
  show "RegExp_matches (h' ! b) s = RegExp_matches (h ! b) s"
    using alt by (auto simp: RegExp_matches_reset)
qed

lemma some_test_no_match:
  assumes "\<forall>a \<in> set as. a < length h \<and> \<not> sticky (h ! a) \<and> \<not> RegExp_matches (h ! a) s"
  shows "fst (some_test as s h) = False \<and> same_but_lastIndex h (snd (some_test as s h))"
  using assms
proof (induction as arbitrary: h)
  case Nil
  show ?case by (simp add: same_but_lastIndex_refl)
next
  case (Cons a as)
  let ?h1 = "snd (RegExp_test a s h)"
  have step: "fst (RegExp_test a s h) = False" "same_but_lastIndex h ?h1"
    using RegExp_test_no_match [of a h s] Cons.prems by simp_all
  have "\<forall>b \<in> set as. b < length ?h1 \<and> \<not> sticky (?h1 ! b) \<and> \<not> RegExp_matches (?h1 ! b) s"
    using Cons.prems same_but_lastIndex_props(2-4) [OF step(2)] by simp
  from Cons.IH [OF this] step show ?case
    by (auto simp del: some_test.simps simp add: some_test_Cons intro: same_but_lastIndex_trans)
qed

lemma include_any_unmatched_exclude:
  assumes "\<forall>a \<in> set (compiledInclude f). stateless h a"
    and "\<forall>a \<in> set (compiledExclude f). a < length h \<and> \<not> sticky (h ! a) \<and> \<not> RegExp_matches (h ! a) ident"
  shows "fst (filter_id f ident h) =
           (compiledInclude f = [] \<or> (\<exists>a \<in> set (compiledInclude f). RegExp_matches (h ! a) ident))"
proof -
  let ?h1 = "snd (some_test (compiledExclude f) ident h)"
  have ex: "fst (some_test (compiledExclude f) ident h) = False" "same_but_lastIndex h ?h1"
    using some_test_no_match [OF assms(2)] by simp_all
  have inc: "\<forall>a \<in> set (compiledInclude f). stateless ?h1 a \<and> ?h1 ! a = h ! a"
    using assms(1) same_but_lastIndex_props(1) [OF ex(2)] by blast
  then have "some_test (compiledInclude f) ident ?h1 =
               (\<exists>a \<in> set (compiledInclude f). RegExp_matches (h ! a) ident, ?h1)"
    by (simp add: some_test_stateless)
  with ex(1) show ?thesis
    by (auto simp: filter_id_def case_prod_beta)
qed

lemma include_any_stateless:
  assumes "stateless_config incl excl h0"
    and "createFilter incl excl h0 = Some (f, h)"
    and "\<forall>a \<in> set (compiledExclude f). \<not> RegExp_matches (h ! a) ident"
  shows "(incl = Undefined \<or> incl = Null \<or> incl = Array [] \<longrightarrow> filter_id f ident h = (True, h)) \<and>
         (\<not> (incl = Undefined \<or> incl = Null \<or> incl = Array []) \<longrightarrow>
            filter_id f ident h = (\<exists>a \<in> set (compiledInclude f). RegExp_matches (h ! a) ident, h))"
  using assms(3) createFilter_include_empty [OF assms(2)]
  by (simp add: filter_id_stateless [OF createFilter_stateless [OF assms(2,1)]])

lemma include_any_stateless_example:
  "filter_id \<lparr>compiledInclude = [], compiledExclude = [0]\<rparr> ''src/app.js'' [glob_RegExp ''src/gen.js''] =
     (True, [glob_RegExp ''src/gen.js'']) \<and>
   filter_id \<lparr>compiledInclude = [0, 1], compiledExclude = [2]\<rparr> ''src/app.js''
       [js_suffix False, glob_RegExp ''README'', glob_RegExp ''src/gen.js''] =
     (True, [js_suffix False, glob_RegExp ''README'', glob_RegExp ''src/gen.js'']) \<and>
   filter_id \<lparr>compiledInclude = [0, 1], compiledExclude = [2]\<rparr> ''src/app.css''
       [js_suffix False, glob_RegExp ''README'', glob_RegExp ''src/gen.js''] =
     (False, [js_suffix False, glob_RegExp ''README'', glob_RegExp ''src/gen.js''])"
proof -
  let ?incl = "Array [PRegExp 0, PString ''README'']"
  let ?excl = "Single (PString ''src/gen.js'')"
  let ?h = "[js_suffix False, glob_RegExp ''README'', glob_RegExp ''src/gen.js'']"
  have s1: "stateless_config Null ?excl []"
    by (simp add: stateless_config_def)
  have c1: "createFilter Null ?excl [] =
      Some (\<lparr>compiledInclude = [], compiledExclude = [0]\<rparr>, [glob_RegExp ''src/gen.js''])"
    by (simp add: createFilter_def handlePath_def compilePattern_glob)
  have s2: "stateless_config ?incl ?excl [js_suffix False]"
    by (simp add: stateless_config_def stateless_def js_suffix_def)
  have c2: "createFilter ?incl ?excl [js_suffix False] =
      Some (\<lparr>compiledInclude = [0, 1], compiledExclude = [2]\<rparr>, ?h)"
    by (simp add: createFilter_def handlePath_def compilePattern_glob compilePattern_RegExp)
  have js: "RegExp_matches (js_suffix False) ''src/app.js''" "\<not> RegExp_matches (js_suffix False) ''src/app.css''"
    by (simp_all add: RegExp_matches_def RegExp_exec_def js_suffix_def scan.simps pattern_matcher_def)
  show ?thesis
    using include_any_stateless [OF s1 c1, of "''src/app.js''"]
      include_any_stateless [OF s2 c2, of "''src/app.js''"]
      include_any_stateless [OF s2 c2, of "''src/app.css''"] js
    by (simp add: glob_RegExp_matches_literal)
qed

text \<open>
  When no caller-supplied expression carries \<^verbatim>\<open>g\<close> or \<^verbatim>\<open>y\<close>, a second call on the same path
  gives the same answer and the same store as the first, and so does a call made after any
  sequence of earlier calls.
\<close>

lemma filter_deterministic_stateless:
  assumes "stateless_config incl excl h0"
    and "createFilter incl excl h0 = Some (f, h)"
  shows "filter_id f ident (snd (filter_id f ident h)) = filter_id f ident h \<and>
         filter_id f ident (after_calls f earlier h) = filter_id f ident h"
  by (simp add: filter_id_stateless [OF createFilter_stateless [OF assms(2,1)]]
      after_calls_stateless [OF createFilter_stateless [OF assms(2,1)]])

lemma filter_deterministic_stateless_example:
  "stateless_config (Single (PRegExp 0)) (Array [PString ''src/gen.js'']) [js_suffix False] \<and>
   filter_id \<lparr>compiledInclude = [0], compiledExclude = [1]\<rparr> ''src/app.js''
       (after_calls \<lparr>compiledInclude = [0], compiledExclude = [1]\<rparr> [''src/gen.js'', ''src/app.js'']
          [js_suffix False, glob_RegExp ''src/gen.js'']) =
     filter_id \<lparr>compiledInclude = [0], compiledExclude = [1]\<rparr> ''src/app.js''
       [js_suffix False, glob_RegExp ''src/gen.js'']"
proof -
  have s: "stateless_config (Single (PRegExp 0)) (Array [PString ''src/gen.js'']) [js_suffix False]"
    by (simp add: stateless_config_def stateless_def js_suffix_def)
  have c: "createFilter (Single (PRegExp 0)) (Array [PString ''src/gen.js'']) [js_suffix False] =
     Some (\<lparr>compiledInclude = [0], compiledExclude = [1]\<rparr>, [js_suffix False, glob_RegExp ''src/gen.js''])"
    by (simp add: createFilter_def handlePath_def compilePattern_glob compilePattern_RegExp)
  show ?thesis
    using filter_deterministic_stateless [OF s c, of "''src/app.js''" "[''src/gen.js'', ''src/app.js'']"] s by simp
qed

section \<open>The transform hook\<close>

lemma starts_with_append: "starts_with (sub @ rest) sub"
  by (induction sub) auto

lemma string_includes_prefix: "string_includes (sub @ rest) sub"
  by (cases "sub @ rest") (auto simp: starts_with_append simp flip: append_Cons, metis starts_with_append)

lemma abort_error_marked:
  "string_includes (message (abort_error hst ident r)) ''ESLint validation failed''"
proof -
  have "message (abort_error hst ident r) =
          ''ESLint validation failed'' @ '' for '' @ relative hst (cwd hst) ident @ '': '' @
            join '' and '' (messageParts r)"
    by (simp add: abort_error_def)
  then show ?thesis
    by (simp only: string_includes_prefix)
qed

lemma catch_block_abort:
  "catch_block opts ident (abort_error hst ident' r) = ([], Threw (abort_error hst ident' r))"
  using abort_error_marked [of hst ident' r] by (simp add: catch_block_def)

lemma report_ok:
  assumes "loadFormatter engine (formatter opts) = Inr fmt" "fmt (r # rs) = Inr out"
  shows "report opts hst engine ident (r # rs) =
           ([CallLoadFormatter (formatter opts), CallFormat (r # rs)] @
              (if out \<noteq> [] then [ConsoleLog out] else []),
            if should_abort opts r then Inl (abort_error hst ident r) else Inr ())"
  using assms by (simp add: report_def and_then_def call_def done_with_def throw_def)

lemma try_block_ok:
  assumes "isPathIgnored engine ident = Inr False"
    "lintText engine code ident = Inr (r # rs)"
    "fix_flag opts \<longrightarrow> outputFixes hst (r # rs) = Inr ()"
    "loadFormatter engine (formatter opts) = Inr fmt" "fmt (r # rs) = Inr out"
  shows "try_block opts hst engine code ident =
           ([CallIsPathIgnored ident, CallLintText code ident] @
              (if fix_flag opts then [CallOutputFixes (r # rs)] else []) @
              [CallLoadFormatter (formatter opts), CallFormat (r # rs)] @
              (if out \<noteq> [] then [ConsoleLog out] else []),
            if should_abort opts r then Inl (abort_error hst ident r) else Inr ())"
  using assms(1,2,3) report_ok [OF assms(4,5), of hst ident]
  by (simp add: try_block_def and_then_def call_def done_with_def)

lemma transform_ok:
  assumes "filter_id (path_filter p) ident h = (True, h')"
    "isPathIgnored (eslint p) ident = Inr False"
    "lintText (eslint p) code ident = Inr (r # rs)"
    "fix_flag (pluginOptions p) \<longrightarrow> outputFixes hst (r # rs) = Inr ()"
    "loadFormatter (eslint p) (formatter (pluginOptions p)) = Inr fmt" "fmt (r # rs) = Inr out"
  shows "transform p hst code ident h =
           (([CallIsPathIgnored ident, CallLintText code ident] @
               (if fix_flag (pluginOptions p) then [CallOutputFixes (r # rs)] else []) @
               [CallLoadFormatter (formatter (pluginOptions p)), CallFormat (r # rs)] @
               (if out \<noteq> [] then [ConsoleLog out] else []),
             if should_abort (pluginOptions p) r then Threw (abort_error hst ident r) else Returned),
            h')"
  using assms(1) try_block_ok [OF assms(2-6)]
  by (simp add: transform_def catch_block_abort)

lemma transform_raised:
  assumes "filter_id (path_filter p) ident h = (True, h')"
    "try_block (pluginOptions p) hst (eslint p) code ident = (ev, Inl err)"
  shows "transform p hst code ident h =
           (case catch_block (pluginOptions p) ident err of (ev', out) \<Rightarrow> ((ev @ ev', out), h'))"
  using assms by (simp add: transform_def)

lemma wrapper_unmarked:
  "\<not> string_includes m ''ESLint validation failed'' \<Longrightarrow>
     \<not> string_includes (''ESLint plugin error: '' @ m) ''ESLint validation failed''"
  by simp

lemma wrapper_not_abort: "Error (''ESLint plugin error: '' @ m) \<noteq> abort_error hst ident r"
  by (simp add: abort_error_def)

lemma messageParts_summary:
  "join '' and '' (messageParts r) = spec_summary (errorCount r) (warningCount r)"
  by (simp add: messageParts_def errors_part_def warnings_part_def hasErrors_def hasWarnings_def
      spec_summary_def plural_phrase_def)

lemmas example_defs =
  example_engine_def failing_engine_def example_host_def example_options_def accept_all_def
  example_plugin_def findings_def

section \<open>The claims about the transform hook\<close>

text \<open>
  The claims about a cycle that reaches the findings are stated for a path that passes the
  filter and is not ignored, with a linter, a fixer (when \<^verbatim>\<open>fix\<close> is set) and a formatter that
  do not fail. Thrown values are Error objects.
\<close>

text \<open>
  C2, as stated, fails in its last part. With one error, \<^verbatim>\<open>throwOnError\<close> and \<^verbatim>\<open>throwOnWarning\<close>
  false and a formatter that renders the results as the empty string, the cycle returns and
  nothing is printed: line 148 prints the formatter's output only when it is not empty.
\<close>

theorem C2_counterexample:
  "transform (example_plugin (example_options False False False) (example_engine [findings 1 0] []))
     example_host ''let x'' ''/proj/app.js'' [] =
   (([CallIsPathIgnored ''/proj/app.js'', CallLintText ''let x'' ''/proj/app.js'',
      CallLoadFormatter (Name ''stylish''), CallFormat [findings 1 0]], Returned), [])"
  by (simp add: transform_def try_block_def report_def and_then_def call_def done_with_def
      throw_def should_abort_def hasErrors_def hasWarnings_def example_defs filter_id_def)

text \<open>
  C2, amended. For the first lint result, with \<open>E\<close> errors and \<open>W\<close> warnings, and every
  setting of the flags, the cycle throws if and only if \<open>E > 0\<close> and \<^verbatim>\<open>throwOnError\<close>, or
  \<open>W > 0\<close> and \<^verbatim>\<open>throwOnWarning\<close>; otherwise it returns. In both cases the formatter's output
  is printed if and only if it is not empty.
\<close>

theorem C2_abort_iff:
  assumes "filter_id (path_filter p) ident h = (True, h')"
    and "isPathIgnored (eslint p) ident = Inr False"
    and "lintText (eslint p) code ident = Inr (r # rs)"
    and "fix_flag (pluginOptions p) \<longrightarrow> outputFixes hst (r # rs) = Inr ()"
    and "loadFormatter (eslint p) (formatter (pluginOptions p)) = Inr fmt"
    and "fmt (r # rs) = Inr out"
  shows "((\<exists>err. outcome_of (transform p hst code ident h) = Threw err) =
            ((errorCount r > 0 \<and> throwOnError (pluginOptions p)) \<or>
             (warningCount r > 0 \<and> throwOnWarning (pluginOptions p)))) \<and>
         ((outcome_of (transform p hst code ident h) = Returned) =
            (\<not> ((errorCount r > 0 \<and> throwOnError (pluginOptions p)) \<or>
                (warningCount r > 0 \<and> throwOnWarning (pluginOptions p))))) \<and>
         ((ConsoleLog out \<in> set (events_of (transform p hst code ident h))) = (out \<noteq> []))"
  by (simp add: transform_ok [OF assms] outcome_of_def events_of_def should_abort_def
      hasErrors_def hasWarnings_def)

theorem C2_abort_iff_witness:
  "outcome_of (transform (example_plugin (example_options False False False)
       (example_engine [findings 1 0] ''1 problem'')) example_host ''let x'' ''/proj/app.js'' []) = Returned \<and>
   ConsoleLog ''1 problem'' \<in> set (events_of (transform (example_plugin (example_options False False False)
       (example_engine [findings 1 0] ''1 problem'')) example_host ''let x'' ''/proj/app.js'' []))"
  using C2_abort_iff [of "example_plugin (example_options False False False)
       (example_engine [findings 1 0] ''1 problem'')" "''/proj/app.js''" "[]" "[]" "''let x''"
       "findings 1 0" "[]" example_host "\<lambda>_. Inr ''1 problem''" "''1 problem''"]
  by (simp add: example_defs filter_id_def)

text \<open>
  C5, as stated, fails. An error of the engine whose message contains the text
  \<^verbatim>\<open>ESLint validation failed\<close> is taken for a lint-finding abort: it is not logged, and it
  leaves the hook as it is although \<^verbatim>\<open>throwOnError\<close> is false.
\<close>

theorem C5_counterexample:
  "string_includes ''ESLint validation failed: parser crashed'' ''ESLint validation failed'' \<and>
   transform (example_plugin (example_options False False False)
       (failing_engine ''ESLint validation failed: parser crashed''))
     example_host ''let x'' ''/proj/app.js'' [] =
   (([CallIsPathIgnored ''/proj/app.js'', CallLintText ''let x'' ''/proj/app.js''],
     Threw (Error ''ESLint validation failed: parser crashed'')), [])"
  by (simp add: transform_def try_block_def and_then_def call_def catch_block_def
      example_defs filter_id_def)

text \<open>
  C5, amended. For every error thrown in the \<^verbatim>\<open>try\<close> block whose message does not contain
  the text \<^verbatim>\<open>ESLint validation failed\<close>: the error is logged; with \<^verbatim>\<open>throwOnError\<close> it leaves
  the hook wrapped in an error whose message \<^verbatim>\<open>ESLint plugin error: ...\<close> does not contain
  that text and which differs from every lint-finding abort; without \<^verbatim>\<open>throwOnError\<close> the hook
  returns. A lint-finding abort leaves the hook unchanged and is not logged.
\<close>

theorem C5_other_errors:
  assumes "filter_id (path_filter p) ident h = (True, h')"
    and "try_block (pluginOptions p) hst (eslint p) code ident = (ev, Inl err)"
  shows "(\<not> string_includes (message err) ''ESLint validation failed'' \<longrightarrow>
            transform p hst code ident h =
              ((ev @ [ConsoleError (''Error running ESLint on '' @ ident @ '':'') err],
                if throwOnError (pluginOptions p)
                then Threw (Error (''ESLint plugin error: '' @ message err)) else Returned), h') \<and>
            \<not> string_includes (''ESLint plugin error: '' @ message err) ''ESLint validation failed'' \<and>
            Error (''ESLint plugin error: '' @ message err) \<noteq> abort_error hst ident r) \<and>
         (err = abort_error hst ident r \<longrightarrow>
            transform p hst code ident h = ((ev, Threw err), h'))"
  using wrapper_unmarked [of "message err"] wrapper_not_abort [of "message err" hst ident r]
    abort_error_marked [of hst ident r]
  by (auto simp: transform_raised [OF assms] catch_block_abort catch_block_def)

theorem C5_other_errors_witness:
  "transform (example_plugin (example_options False True False) (failing_engine ''Parsing failed''))
     example_host ''let x'' ''/proj/app.js'' [] =
   (([CallIsPathIgnored ''/proj/app.js'', CallLintText ''let x'' ''/proj/app.js'',
      ConsoleError ''Error running ESLint on /proj/app.js:'' (Error ''Parsing failed'')],
     Threw (Error ''ESLint plugin error: Parsing failed'')), [])"
  using C5_other_errors [of "example_plugin (example_options False True False) (failing_engine ''Parsing failed'')"
      "''/proj/app.js''" "[]" "[]" example_host "''let x''"
      "[CallIsPathIgnored ''/proj/app.js'', CallLintText ''let x'' ''/proj/app.js'']"
      "Error ''Parsing failed''" "findings 1 0"]
  by (simp add: example_defs filter_id_def try_block_def and_then_def call_def)

text \<open>
  C6. When the cycle aborts on a finding, the message is \<^verbatim>\<open>ESLint validation failed for\<close>, the
  path relative to the working directory, a colon and the summary of the counts of the first
  result: a count with its noun, plural unless the count is one, errors before warnings
  joined by \<^verbatim>\<open>and\<close>, a kind with count zero left out. So one error gives \<^verbatim>\<open>1 error\<close>, two give
  \<^verbatim>\<open>2 errors\<close>, one error and two warnings give \<^verbatim>\<open>1 error and 2 warnings\<close>
\<close>

theorem C6_abort_message:
  assumes "filter_id (path_filter p) ident h = (True, h')"
    and "isPathIgnored (eslint p) ident = Inr False"
    and "lintText (eslint p) code ident = Inr (r # rs)"
    and "fix_flag (pluginOptions p) \<longrightarrow> outputFixes hst (r # rs) = Inr ()"
    and "loadFormatter (eslint p) (formatter (pluginOptions p)) = Inr fmt"
    and "fmt (r # rs) = Inr out"
    and "should_abort (pluginOptions p) r"
  shows "outcome_of (transform p hst code ident h) =
           Threw (Error (''ESLint validation failed for '' @ relative hst (cwd hst) ident @ '': '' @
                         spec_summary (errorCount r) (warningCount r))) \<and>
         spec_summary 1 0 = ''1 error'' \<and> spec_summary 2 0 = ''2 errors'' \<and>
         spec_summary 1 2 = ''1 error and 2 warnings'' \<and> spec_summary 0 2 = ''2 warnings''"
proof -
  have "outcome_of (transform p hst code ident h) = Threw (abort_error hst ident r)"
    using assms(7) by (simp add: transform_ok [OF assms(1-6)] outcome_of_def)
  then have "outcome_of (transform p hst code ident h) =
           Threw (Error (''ESLint validation failed for '' @ relative hst (cwd hst) ident @ '': '' @
                         spec_summary (errorCount r) (warningCount r)))"
    by (simp only: abort_error_def messageParts_summary)
  moreover have "spec_summary 1 0 = ''1 error'' \<and> spec_summary 2 0 = ''2 errors'' \<and>
         spec_summary 1 2 = ''1 error and 2 warnings'' \<and> spec_summary 0 2 = ''2 warnings''"
    by (simp add: spec_summary_def plural_phrase_def number_to_string.simps digit_char_def)
  ultimately show ?thesis by simp
qed

theorem C6_abort_message_witness:
  "should_abort (example_options False True False) (findings 1 2) \<and>
   outcome_of (transform (example_plugin (example_options False True False)
       (example_engine [findings 1 2] ''3 problems'')) example_host ''let x'' ''/proj/src/app.js'' []) =
     Threw (Error ''ESLint validation failed for src/app.js: 1 error and 2 warnings'')"
  using C6_abort_message [of "example_plugin (example_options False True False)
       (example_engine [findings 1 2] ''3 problems'')" "''/proj/src/app.js''" "[]" "[]" "''let x''"
       "findings 1 2" "[]" example_host "\<lambda>_. Inr ''3 problems''" "''3 problems''"]
  by (simp add: example_defs filter_id_def should_abort_def hasErrors_def hasWarnings_def)

text \<open>
  C7. When \<^verbatim>\<open>fix\<close> is set and the engine returns a non-empty list of results, the call of
  \<^verbatim>\<open>ESLint.outputFixes\<close> on them is the third event of the cycle, right after the linting:
  it comes before the formatting, the printing and the decision to abort, and it has been
  made also when the cycle then throws on a finding.
\<close>

theorem C7_fix_before_abort:
  assumes "filter_id (path_filter p) ident h = (True, h')"
    and "isPathIgnored (eslint p) ident = Inr False"
    and "lintText (eslint p) code ident = Inr (r # rs)"
    and "fix_flag (pluginOptions p)"
  shows "take 3 (events_of (transform p hst code ident h)) =
           [CallIsPathIgnored ident, CallLintText code ident, CallOutputFixes (r # rs)] \<and>
         (outputFixes hst (r # rs) = Inr () \<and>
          loadFormatter (eslint p) (formatter (pluginOptions p)) = Inr fmt \<and>
          fmt (r # rs) = Inr out \<and> should_abort (pluginOptions p) r \<longrightarrow>
            outcome_of (transform p hst code ident h) = Threw (abort_error hst ident r))"
proof -
  obtain rest res where fx:
    "and_then (call (CallOutputFixes (r # rs)) (outputFixes hst (r # rs)))
       (\<lambda>_. report (pluginOptions p) hst (eslint p) ident (r # rs)) =
     (CallOutputFixes (r # rs) # rest, res)"
    by (cases "outputFixes hst (r # rs)";
        cases "report (pluginOptions p) hst (eslint p) ident (r # rs)")
       (auto simp: and_then_def call_def)
  have body: "try_block (pluginOptions p) hst (eslint p) code ident =
          ([CallIsPathIgnored ident, CallLintText code ident, CallOutputFixes (r # rs)] @ rest, res)"
    using assms(2-4) fx by (simp add: try_block_def and_then_def call_def)
  have "\<exists>more. events_of (transform p hst code ident h) =
          [CallIsPathIgnored ident, CallLintText code ident, CallOutputFixes (r # rs)] @ more"
    using assms(1) body
    by (cases res) (auto simp: transform_def events_of_def split: prod.splits)
  then have first: "take 3 (events_of (transform p hst code ident h)) =
           [CallIsPathIgnored ident, CallLintText code ident, CallOutputFixes (r # rs)]"
    by auto
  have "outcome_of (transform p hst code ident h) = Threw (abort_error hst ident r)"
    if "outputFixes hst (r # rs) = Inr ()"
      "loadFormatter (eslint p) (formatter (pluginOptions p)) = Inr fmt"
      "fmt (r # rs) = Inr out" "should_abort (pluginOptions p) r"
    using that transform_ok [OF assms(1-3) _ that(2,3), of hst] by (simp add: outcome_of_def)
  with first show ?thesis by blast
qed

theorem C7_fix_before_abort_witness:
  "events_of (transform (example_plugin (example_options True True False)
       (example_engine [findings 1 0] ''1 problem'')) example_host ''let x'' ''/proj/app.js'' []) =
     [CallIsPathIgnored ''/proj/app.js'', CallLintText ''let x'' ''/proj/app.js'',
      CallOutputFixes [findings 1 0], CallLoadFormatter (Name ''stylish''),
      CallFormat [findings 1 0], ConsoleLog ''1 problem''] \<and>
   outcome_of (transform (example_plugin (example_options True True False)
       (example_engine [findings 1 0] ''1 problem'')) example_host ''let x'' ''/proj/app.js'' []) =
     Threw (Error ''ESLint validation failed for app.js: 1 error'')"
  using C7_fix_before_abort [of "example_plugin (example_options True True False)
       (example_engine [findings 1 0] ''1 problem'')" "''/proj/app.js''" "[]" "[]" "''let x''"
       "findings 1 0" "[]" example_host "\<lambda>_. Inr ''1 problem''" "''1 problem''"]
  by (simp add: example_defs filter_id_def should_abort_def hasErrors_def hasWarnings_def
      transform_def try_block_def report_def and_then_def call_def done_with_def throw_def
      events_of_def outcome_of_def catch_block_def abort_error_def messageParts_def
      errors_part_def warnings_part_def number_to_string.simps digit_char_def)

text \<open>
  C10. The decision to abort and the counts in the message come from the first result
  alone. For an empty list of results the cycle consists of the two calls to the engine and
  returns: nothing is fixed, formatted or printed, and nothing is thrown. For a non-empty
  list the outcome is a function of the first result, the flags and the path; the counts of
  the later results do not occur in it.
\<close>

theorem C10_first_result_only:
  assumes "filter_id (path_filter p) ident h = (True, h')"
    and "isPathIgnored (eslint p) ident = Inr False"
  shows "(lintText (eslint p) code ident = Inr [] \<longrightarrow>
            transform p hst code ident h =
              (([CallIsPathIgnored ident, CallLintText code ident], Returned), h')) \<and>
         (lintText (eslint p) code ident = Inr (r # rs) \<and>
          (fix_flag (pluginOptions p) \<longrightarrow> outputFixes hst (r # rs) = Inr ()) \<and>
          loadFormatter (eslint p) (formatter (pluginOptions p)) = Inr fmt \<and>
          fmt (r # rs) = Inr out \<longrightarrow>
            outcome_of (transform p hst code ident h) =
              (if (errorCount r > 0 \<and> throwOnError (pluginOptions p)) \<or>
                  (warningCount r > 0 \<and> throwOnWarning (pluginOptions p))
               then Threw (Error (''ESLint validation failed for '' @ relative hst (cwd hst) ident @
                                  '': '' @ spec_summary (errorCount r) (warningCount r)))
               else Returned))"
proof -
  have empty: "transform p hst code ident h =
              (([CallIsPathIgnored ident, CallLintText code ident], Returned), h')"
    if "lintText (eslint p) code ident = Inr []"
    using assms that
    by (simp add: transform_def try_block_def report_def and_then_def call_def done_with_def)
  have first: "outcome_of (transform p hst code ident h) =
              (if (errorCount r > 0 \<and> throwOnError (pluginOptions p)) \<or>
                  (warningCount r > 0 \<and> throwOnWarning (pluginOptions p))
               then Threw (Error (''ESLint validation failed for '' @ relative hst (cwd hst) ident @
                                  '': '' @ spec_summary (errorCount r) (warningCount r)))
               else Returned)"
    if "lintText (eslint p) code ident = Inr (r # rs)"
      "fix_flag (pluginOptions p) \<longrightarrow> outputFixes hst (r # rs) = Inr ()"
      "loadFormatter (eslint p) (formatter (pluginOptions p)) = Inr fmt" "fmt (r # rs) = Inr out"
    by (simp add: transform_ok [OF assms that] outcome_of_def should_abort_def hasErrors_def
        hasWarnings_def abort_error_def messageParts_summary)
  from empty first show ?thesis by blast
qed

theorem C10_first_result_only_witness:
  "transform (example_plugin (example_options True True True) (example_engine [] ''nothing''))
      example_host ''let x'' ''/proj/app.js'' [] =
     (([CallIsPathIgnored ''/proj/app.js'', CallLintText ''let x'' ''/proj/app.js''], Returned), []) \<and>
   outcome_of (transform (example_plugin (example_options False True True)
       (example_engine [findings 0 0, findings 5 7] ''12 problems'')) example_host ''let x'' ''/proj/app.js'' []) =
     Returned"
  using C10_first_result_only [where p = "example_plugin (example_options True True True) (example_engine [] ''nothing'')"
      and ident = "''/proj/app.js''" and h = "[]" and h' = "[]" and code = "''let x''" and hst = example_host]
    C10_first_result_only [where p = "example_plugin (example_options False True True)
         (example_engine [findings 0 0, findings 5 7] ''12 problems'')"
      and ident = "''/proj/app.js''" and h = "[]" and h' = "[]" and code = "''let x''"
      and r = "findings 0 0" and rs = "[findings 5 7]" and hst = example_host
      and fmt = "\<lambda>_. Inr ''12 problems''" and out = "''12 problems''"]
  by (simp add: example_defs filter_id_def)

end
